theory Spec2Isabelle
  imports Main
begin

section \<open>The docs plugin: data model\<close>

text \<open>
  A shallow embedding of \<^verbatim>\<open>packages/docusaurus-plugin-content-docs/src/index.ts\<close>:
  the closure \<^verbatim>\<open>pluginContentDocs(context, options)\<close>, its helper
  \<^verbatim>\<open>getVersionPathPart\<close>, the lifecycle method \<^verbatim>\<open>loadContent\<close> with its local
  functions \<^verbatim>\<open>loadVersionDocs\<close>, \<^verbatim>\<open>loadVersion\<close>, \<^verbatim>\<open>addNavData\<close> and
  \<^verbatim>\<open>toDocNavLink\<close>, and the payload that \<^verbatim>\<open>contentLoaded\<close> hands to
  \<^verbatim>\<open>setGlobalData\<close>.

  JavaScript values are modelled as follows. \<^verbatim>\<open>undefined\<close> and \<^verbatim>\<open>null\<close> are
  \<open>None\<close>. A thrown exception or a rejected promise is \<open>Inl\<close> of an \<open>error\<close>.
  A plain object used as a dictionary is the map of its own properties. Reading
  \<^verbatim>\<open>obj[key]\<close> finds an own property first and then a property inherited from
  \<^verbatim>\<open>Object.prototype\<close>; writing \<^verbatim>\<open>obj[key] = value\<close> creates or replaces an own
  property, except under the key \<^verbatim>\<open>__proto__\<close>. Both are written out below where the
  code reads or writes such an object. Only the fields that \<^verbatim>\<open>index.ts\<close> reads or
  writes appear in the records.
\<close>

datatype error =
    TypeError string  \<comment> \<open>reading the named property of \<^verbatim>\<open>undefined\<close>\<close>
  | Thrown string     \<comment> \<open>whatever a collaborator throws or rejects with\<close>

record VersionMetadata =
  versionName :: string
  docsPath :: string
  sidebarPath :: string

text \<open>
  The fields of a navigation link are copied from whatever \<^verbatim>\<open>docsById[navDocId]\<close>
  is; they are \<^verbatim>\<open>undefined\<close> when that value is not a document.
\<close>

record DocNavLink =
  title :: "string option"
  permalink :: "string option"

record OrderItem =
  previous :: "string option"
  "next" :: "string option"
  sidebar :: "string option"

record DocMetadataBase =
  id' :: string
  unversionedId :: string
  title :: string
  source :: string
  slug :: string
  permalink :: string

record DocMetadata = DocMetadataBase +
  sidebar :: "string option"
  previous :: "DocNavLink option"
  "next" :: "DocNavLink option"

type_synonym Order = "string \<rightharpoonup> OrderItem"
type_synonym DocsMetadataRaw = "string \<rightharpoonup> DocMetadataBase"
type_synonym SourceToPermalink = "string \<rightharpoonup> string"
type_synonym PermalinkToSidebar = "string \<rightharpoonup> string"

record 's LoadedVersion = VersionMetadata +
  versionPath :: string
  mainDocId :: string
  sidebars :: 's
  permalinkToSidebar :: PermalinkToSidebar
  docs :: "DocMetadata list"

record 's LoadedContent =
  loadedVersions :: "'s LoadedVersion list"

record 'g GlobalPluginData =
  path :: string
  latestVersionName :: "string option"
  versions :: "'g list"

record LoadContext =
  baseUrl :: string

record PluginOptions =
  routeBasePath :: string
  homePageId :: "string option"

text \<open>
  Everything \<^verbatim>\<open>pluginContentDocs\<close> closes over. The functions imported from other
  modules are parameters: \<open>'f\<close> is the type of a document file, \<open>'s\<close> of the
  loaded sidebars, \<open>'g\<close> of a version summary in the global data.
  \<open>latestVersion\<close> is \<^verbatim>\<open>legacyVersioningEnv.versioning.latestVersion\<close>;
  \<open>localeCompare\<close> is the platform's \<^verbatim>\<open>String.prototype.localeCompare\<close>.
\<close>

record ('f, 's, 'g) Plugin =
  context' :: LoadContext
  options :: PluginOptions
  versionsMetadata :: "VersionMetadata list"
  latestVersion :: "string option"
  readVersionDocs :: "VersionMetadata \<Rightarrow> error + 'f list"
  processDocMetadata :: "'f \<Rightarrow> VersionMetadata \<Rightarrow> error + DocMetadataBase"
  loadSidebars :: "string list \<Rightarrow> error + 's"
  createOrder :: "'s \<Rightarrow> error + Order"
  normalizeUrl :: "string list \<Rightarrow> string"
  localeCompare :: "string \<Rightarrow> string \<Rightarrow> int"
  toGlobalDataVersion :: "'s LoadedVersion \<Rightarrow> 'g"

section \<open>Library behaviour used by the plugin\<close>

text \<open>
  A list of outcomes succeeds with all the values or fails with an error. It stands for
  \<^verbatim>\<open>Array.prototype.map\<close> with a callback that may throw (the first throw, in index
  order, ends the call) and for \<^verbatim>\<open>Promise.all\<close>, which rejects as soon as one promise
  rejects. Which rejection reason \<^verbatim>\<open>Promise.all\<close> reports depends on the order in which
  the promises settle; the model reports the first in list order.
\<close>

fun collect :: "(error + 'a) list \<Rightarrow> error + 'a list" where
  "collect [] = Inr []"
| "collect (Inl e # rs) = Inl e"
| "collect (Inr x # rs) = (case collect rs of Inl e \<Rightarrow> Inl e | Inr xs \<Rightarrow> Inr (x # xs))"

definition Promise_all :: "(error + 'a) list \<Rightarrow> error + 'a list" where
  "Promise_all = collect"

definition array_map :: "('a \<Rightarrow> error + 'b) \<Rightarrow> 'a list \<Rightarrow> error + 'b list" where
  "array_map f xs = collect (map f xs)"

text \<open>
  \<^verbatim>\<open>Array.prototype.sort(cmp)\<close> is stable; \<open>cmp a b \<le> 0\<close> keeps \<open>a\<close> before
  \<open>b\<close>. For a comparator that is a total preorder every stable sort gives the same
  list, so insertion from the right stands for the engine's algorithm.
\<close>

fun insort_cmp :: "('a \<Rightarrow> 'a \<Rightarrow> int) \<Rightarrow> 'a \<Rightarrow> 'a list \<Rightarrow> 'a list" where
  "insort_cmp cmp x [] = [x]"
| "insort_cmp cmp x (y # ys) =
     (if cmp x y \<le> 0 then x # y # ys else y # insort_cmp cmp x ys)"

definition array_sort :: "('a \<Rightarrow> 'a \<Rightarrow> int) \<Rightarrow> 'a list \<Rightarrow> 'a list" where
  "array_sort cmp xs = foldr (insort_cmp cmp) xs []"

text \<open>lodash \<^verbatim>\<open>keyBy\<close>: a later element overwrites an earlier one with the same key.\<close>

definition keyBy :: "'a list \<Rightarrow> ('a \<Rightarrow> string) \<Rightarrow> (string \<rightharpoonup> 'a)" where
  "keyBy xs f = foldl (\<lambda>m x. m(f x \<mapsto> x)) Map.empty xs"

text \<open>
  The names of the properties that every plain object inherits from
  \<^verbatim>\<open>Object.prototype\<close>. Each is a function, and \<^verbatim>\<open>__proto__\<close> is the prototype object
  itself: none of them is \<^verbatim>\<open>undefined\<close>, and none has a property \<^verbatim>\<open>title\<close>,
  \<^verbatim>\<open>permalink\<close>, \<^verbatim>\<open>previous\<close>, \<^verbatim>\<open>next\<close> or \<^verbatim>\<open>sidebar\<close>.
\<close>

definition Object_prototype_keys :: "string list" where
  "Object_prototype_keys =
     [''constructor'', ''__defineGetter__'', ''__defineSetter__'', ''hasOwnProperty'',
      ''__lookupGetter__'', ''__lookupSetter__'', ''isPrototypeOf'', ''propertyIsEnumerable'',
      ''toString'', ''valueOf'', ''__proto__'', ''toLocaleString'']"

text \<open>
  \<^verbatim>\<open>obj[key] = value\<close> for a string \<^verbatim>\<open>value\<close>: under the key \<^verbatim>\<open>__proto__\<close> the
  inherited setter ignores a value that is not an object, and no own property appears.
\<close>

definition assignProperty :: "(string \<rightharpoonup> string) \<Rightarrow> string \<Rightarrow> string \<Rightarrow> (string \<rightharpoonup> string)" where
  "assignProperty obj key v = (if key = ''__proto__'' then obj else obj(key \<mapsto> v))"

section \<open>The plugin\<close>

text \<open>
  Modelled from the spec: \<^verbatim>\<open>CURRENT_VERSION_NAME\<close> of \<^verbatim>\<open>constants.ts\<close>, which is not
  among the sources; the spec names the unreleased version \<^verbatim>\<open>current\<close>.
\<close>

definition CURRENT_VERSION_NAME :: string where
  "CURRENT_VERSION_NAME = ''current''"

definition getVersionPathPart :: "('f, 's, 'g) Plugin \<Rightarrow> string \<Rightarrow> string" where
  "getVersionPathPart P version =
     (if Some version = latestVersion P then ''''
      else if version = CURRENT_VERSION_NAME then ''next''
      else version)"

definition loadVersionDocs ::
  "('f, 's, 'g) Plugin \<Rightarrow> VersionMetadata \<Rightarrow> error + DocMetadataBase list" where
  "loadVersionDocs P versionMetadata =
     (case readVersionDocs P versionMetadata of
        Inl e \<Rightarrow> Inl e
      | Inr docFiles \<Rightarrow>
          Promise_all (map (\<lambda>docFile. processDocMetadata P docFile versionMetadata) docFiles))"

text \<open>
  \<^verbatim>\<open>docsById\<close> is the plain object that \<^verbatim>\<open>keyBy\<close> returns. An id that is the id of
  a document finds that document. An id that is not, but names an inherited property,
  finds a value with neither \<^verbatim>\<open>title\<close> nor \<^verbatim>\<open>permalink\<close>, and the link is made of two
  \<^verbatim>\<open>undefined\<close>. Any other id finds \<^verbatim>\<open>undefined\<close>, and reading its \<^verbatim>\<open>title\<close>
  throws.
\<close>

definition toDocNavLink :: "DocsMetadataRaw \<Rightarrow> string \<Rightarrow> error + DocNavLink" where
  "toDocNavLink docsById navDocId =
     (case docsById navDocId of
        Some d \<Rightarrow>
          Inr \<lparr>DocNavLink.title = Some (title d), DocNavLink.permalink = Some (permalink d)\<rparr>
      | None \<Rightarrow>
          if navDocId \<in> set Object_prototype_keys
          then Inr \<lparr>DocNavLink.title = None, DocNavLink.permalink = None\<rparr>
          else Inl (TypeError ''title''))"

text \<open>
  \<^verbatim>\<open>navId ? toDocNavLink(navId) : undefined\<close>: both \<^verbatim>\<open>undefined\<close> and the empty
  string are falsy.
\<close>

definition navLink :: "DocsMetadataRaw \<Rightarrow> string option \<Rightarrow> error + DocNavLink option" where
  "navLink docsById navId =
     (case navId of
        None \<Rightarrow> Inr None
      | Some i \<Rightarrow>
          if i = [] then Inr None
          else (case toDocNavLink docsById i of Inl e \<Rightarrow> Inl e | Inr l \<Rightarrow> Inr (Some l)))"

text \<open>
  \<^verbatim>\<open>docsOrder[doc.id] ?? {}\<close>: an id with no entry of its own finds \<^verbatim>\<open>undefined\<close> or an
  inherited property, and either way \<^verbatim>\<open>previous\<close>, \<^verbatim>\<open>next\<close> and \<^verbatim>\<open>sidebar\<close> are
  \<^verbatim>\<open>undefined\<close>.
\<close>

definition addNavData :: "DocsMetadataRaw \<Rightarrow> Order \<Rightarrow> DocMetadataBase \<Rightarrow> error + DocMetadata" where
  "addNavData docsById docsOrder doc =
     (let entry = (case docsOrder (id' doc) of
                     None \<Rightarrow> \<lparr>OrderItem.previous = None, OrderItem.next = None,
                               OrderItem.sidebar = None\<rparr>
                   | Some e \<Rightarrow> e);
          nextId = OrderItem.next entry;
          previousId = OrderItem.previous entry;
          sidebar' = OrderItem.sidebar entry
      in case navLink docsById previousId of
           Inl e \<Rightarrow> Inl e
         | Inr previous' \<Rightarrow>
             (case navLink docsById nextId of
                Inl e \<Rightarrow> Inl e
              | Inr next' \<Rightarrow>
                  Inr (DocMetadataBase.extend doc
                         (DocMetadata.fields sidebar' previous' next'))))"

text \<open>The expression \<^verbatim>\<open>docsOrder[docId]?.sidebar\<close>.\<close>

definition docSidebarName :: "Order \<Rightarrow> string \<Rightarrow> string option" where
  "docSidebarName docsOrder docId =
     (case docsOrder docId of None \<Rightarrow> None | Some e \<Rightarrow> OrderItem.sidebar e)"

text \<open>
  \<^verbatim>\<open>loadVersion\<close> takes the shared \<^verbatim>\<open>sourceToPermalink\<close> table and returns it
  updated, with the outcome of the promise. In \<^verbatim>\<open>if (docSidebarName)\<close> the empty
  string is falsy, as \<^verbatim>\<open>undefined\<close> is. \<^verbatim>\<open>docs[0]\<close> of an empty array is
  \<^verbatim>\<open>undefined\<close>, and reading \<^verbatim>\<open>mainDoc.unversionedId\<close> then throws.
\<close>

definition loadVersion ::
  "('f, 's, 'g) Plugin \<Rightarrow> VersionMetadata \<Rightarrow> SourceToPermalink \<Rightarrow>
     SourceToPermalink \<times> (error + 's LoadedVersion)" where
  "loadVersion P versionMetadata sourceToPermalink =
     (case loadVersionDocs P versionMetadata of
        Inl e \<Rightarrow> (sourceToPermalink, Inl e)
      | Inr docs' \<Rightarrow>
     (let docsById = keyBy docs' id' in
     (case loadSidebars P [sidebarPath versionMetadata] of
        Inl e \<Rightarrow> (sourceToPermalink, Inl e)
      | Inr sidebars' \<Rightarrow>
     (case createOrder P sidebars' of
        Inl e \<Rightarrow> (sourceToPermalink, Inl e)
      | Inr docsOrder \<Rightarrow>
     (case array_map (addNavData docsById docsOrder) docs' of
        Inl e \<Rightarrow> (sourceToPermalink, Inl e)
      | Inr mapped \<Rightarrow>
     (let loadedDocs = array_sort (\<lambda>a b. localeCompare P (id' a) (id' b)) mapped;
          sourceToPermalink' =
            foldl (\<lambda>m loadedDoc. assignProperty m (source loadedDoc) (permalink loadedDoc))
              sourceToPermalink loadedDocs;
          permalinkToSidebar' =
            foldl (\<lambda>m loadedDoc.
                     (case docSidebarName docsOrder (id' loadedDoc) of
                        None \<Rightarrow> m
                      | Some n \<Rightarrow>
                          if n = [] then m else assignProperty m (permalink loadedDoc) n))
              Map.empty loadedDocs;
          versionPath' =
            normalizeUrl P [baseUrl (context' P), routeBasePath (options P),
                            getVersionPathPart P (versionName versionMetadata)];
          mainDoc =
            (case find (\<lambda>doc. Some (unversionedId doc) = homePageId (options P)
                               \<or> slug doc = ''/'') docs' of
               Some doc \<Rightarrow> Some doc
             | None \<Rightarrow> (case docs' of [] \<Rightarrow> None | doc # _ \<Rightarrow> Some doc))
      in case mainDoc of
           None \<Rightarrow> (sourceToPermalink', Inl (TypeError ''unversionedId''))
         | Some md \<Rightarrow>
             (case array_map (addNavData docsById docsOrder) docs' of
                Inl e \<Rightarrow> (sourceToPermalink', Inl e)
              | Inr ds \<Rightarrow>
                  (sourceToPermalink',
                   Inr (VersionMetadata.extend versionMetadata
                          (LoadedVersion.fields versionPath' (unversionedId md) sidebars'
                             permalinkToSidebar' ds))))))))))"

text \<open>
  \<^verbatim>\<open>versionsMetadata.map(loadVersion)\<close>: every version is loaded, whether or not another
  one fails. The writes to the shared \<^verbatim>\<open>sourceToPermalink\<close> table happen in one
  synchronous block per version; the model runs the versions in list order.
\<close>

fun loadVersions ::
  "('f, 's, 'g) Plugin \<Rightarrow> VersionMetadata list \<Rightarrow> SourceToPermalink \<Rightarrow>
     SourceToPermalink \<times> (error + 's LoadedVersion) list" where
  "loadVersions P [] s = (s, [])"
| "loadVersions P (vm # vms) s =
     (case loadVersion P vm s of
        (s', r) \<Rightarrow> (case loadVersions P vms s' of (s'', rs) \<Rightarrow> (s'', r # rs)))"

definition loadContent ::
  "('f, 's, 'g) Plugin \<Rightarrow> SourceToPermalink \<Rightarrow>
     SourceToPermalink \<times> (error + 's LoadedContent)" where
  "loadContent P sourceToPermalink =
     (case loadVersions P (versionsMetadata P) sourceToPermalink of
        (s', rs) \<Rightarrow>
          (s', case Promise_all rs of
                 Inl e \<Rightarrow> Inl e
               | Inr lvs \<Rightarrow> Inr \<lparr>loadedVersions = lvs\<rparr>))"

text \<open>
  The argument of \<^verbatim>\<open>setGlobalData\<close> in \<^verbatim>\<open>contentLoaded\<close>. The calls of
  \<^verbatim>\<open>createData\<close> and \<^verbatim>\<open>addRoute\<close> that precede it belong to the build tool and only
  decide whether this point is reached.
\<close>

definition contentLoaded ::
  "('f, 's, 'g) Plugin \<Rightarrow> 's LoadedContent \<Rightarrow> 'g GlobalPluginData" where
  "contentLoaded P content =
     \<lparr>path = normalizeUrl P [baseUrl (context' P), routeBasePath (options P)],
      latestVersionName = latestVersion P,
      versions = map (toGlobalDataVersion P) (loadedVersions content)\<rparr>"

section \<open>The main document as the specification words it\<close>

text \<open>
  The specification's rule for the main document, kept apart from the code's: the
  document whose slug is exactly \<^verbatim>\<open>/\<close>, else the document whose unversioned id is the
  configured home id, else the first document after a stable sort by id.
\<close>

definition spec_mainDoc ::
  "(string \<Rightarrow> string \<Rightarrow> int) \<Rightarrow> string option \<Rightarrow> DocMetadataBase list \<Rightarrow>
     DocMetadataBase option" where
  "spec_mainDoc cmp home ds =
     (case find (\<lambda>d. slug d = ''/'') ds of
        Some d \<Rightarrow> Some d
      | None \<Rightarrow>
          (case find (\<lambda>d. Some (unversionedId d) = home) ds of
             Some d \<Rightarrow> Some d
           | None \<Rightarrow>
               (case array_sort (\<lambda>a b. cmp (id' a) (id' b)) ds of
                  [] \<Rightarrow> None
                | d # _ \<Rightarrow> Some d)))"

section \<open>A small site\<close>

text \<open>
  A site with three versions, used to run the definitions: \<^verbatim>\<open>current\<close> has the
  documents \<^verbatim>\<open>b\<close>, \<^verbatim>\<open>a\<close>, \<^verbatim>\<open>c\<close> (read in that order; \<^verbatim>\<open>b\<close> and \<^verbatim>\<open>a\<close> are in
  the sidebar \<^verbatim>\<open>docs\<close>, \<^verbatim>\<open>c\<close> is in none), \<^verbatim>\<open>2.0\<close> is the latest version and
  has the documents \<^verbatim>\<open>home\<close> and \<^verbatim>\<open>intro\<close>, and \<^verbatim>\<open>1.0\<close> has no document.
  Strings are compared code unit by code unit, a document file is its own metadata, and
  the sidebars are already the order they define.
\<close>

fun compareCodeUnits :: "string \<Rightarrow> string \<Rightarrow> int" where
  "compareCodeUnits [] [] = 0"
| "compareCodeUnits [] (y # ys) = - 1"
| "compareCodeUnits (x # xs) [] = 1"
| "compareCodeUnits (x # xs) (y # ys) =
     (if (of_char x :: nat) < of_char y then - 1
      else if (of_char y :: nat) < of_char x then 1
      else compareCodeUnits xs ys)"

definition mkDoc :: "string \<Rightarrow> string \<Rightarrow> string \<Rightarrow> string \<Rightarrow> DocMetadataBase" where
  "mkDoc v i t sl =
     \<lparr>id' = v @ i, unversionedId = i, title = t, source = ''@site/'' @ v @ i @ ''.md'',
      slug = sl, permalink = ''/docs/'' @ v @ i\<rparr>"

definition docB :: DocMetadataBase where "docB = mkDoc [] ''b'' ''Bees'' ''/b''"
definition docA :: DocMetadataBase where "docA = mkDoc [] ''a'' ''Ants'' ''/a''"
definition docC :: DocMetadataBase where "docC = mkDoc [] ''c'' ''Cats'' ''/c''"
definition docHome :: DocMetadataBase where "docHome = mkDoc ''2.0/'' ''home'' ''Home'' ''/home''"
definition docIntro :: DocMetadataBase where "docIntro = mkDoc ''2.0/'' ''intro'' ''Intro'' ''/''"

definition vCurrent :: VersionMetadata where
  "vCurrent = \<lparr>versionName = ''current'', docsPath = ''docs'', sidebarPath = ''sidebars.json''\<rparr>"
definition v20 :: VersionMetadata where
  "v20 = \<lparr>versionName = ''2.0'', docsPath = ''v/2.0'', sidebarPath = ''v/2.0.json''\<rparr>"
definition v10 :: VersionMetadata where
  "v10 = \<lparr>versionName = ''1.0'', docsPath = ''v/1.0'', sidebarPath = ''v/1.0.json''\<rparr>"

definition siteDocs :: "VersionMetadata \<Rightarrow> error + DocMetadataBase list" where
  "siteDocs vm =
     (if versionName vm = ''current'' then Inr [docB, docA, docC]
      else if versionName vm = ''2.0'' then Inr [docHome, docIntro]
      else Inr [])"

definition siteSidebars :: "string list \<Rightarrow> error + (string \<times> OrderItem) list" where
  "siteSidebars paths =
     (if paths = [''sidebars.json'']
      then Inr [(''b'', \<lparr>OrderItem.previous = None, OrderItem.next = Some ''a'',
                         OrderItem.sidebar = Some ''docs''\<rparr>),
                (''a'', \<lparr>OrderItem.previous = Some ''b'', OrderItem.next = None,
                         OrderItem.sidebar = Some ''docs''\<rparr>)]
      else Inr [])"

definition site :: "(DocMetadataBase, (string \<times> OrderItem) list, string \<times> string) Plugin" where
  "site =
     \<lparr>context' = \<lparr>baseUrl = ''/''\<rparr>,
      options = \<lparr>routeBasePath = ''docs/'', homePageId = Some ''home''\<rparr>,
      versionsMetadata = [vCurrent, v20],
      latestVersion = Some ''2.0'',
      readVersionDocs = siteDocs,
      processDocMetadata = (\<lambda>docFile versionMetadata. Inr docFile),
      loadSidebars = siteSidebars,
      createOrder = (\<lambda>sb. Inr (map_of sb)),
      normalizeUrl = concat,
      localeCompare = compareCodeUnits,
      toGlobalDataVersion = (\<lambda>lv. (versionName lv, mainDocId lv))\<rparr>"

text \<open>The same site with the empty version \<^verbatim>\<open>1.0\<close> among its versions.\<close>

definition siteWithEmptyVersion ::
  "(DocMetadataBase, (string \<times> OrderItem) list, string \<times> string) Plugin" where
  "siteWithEmptyVersion = site\<lparr>versionsMetadata := [vCurrent, v20, v10]\<rparr>"

text \<open>
  The site without released versions: only \<^verbatim>\<open>current\<close> is loaded and the versioning
  environment has no latest version. And the site whose versioning environment names a
  latest version \<^verbatim>\<open>9.9\<close> that is not in the version set.
\<close>

definition siteUnversioned ::
  "(DocMetadataBase, (string \<times> OrderItem) list, string \<times> string) Plugin" where
  "siteUnversioned = site\<lparr>versionsMetadata := [vCurrent], latestVersion := None\<rparr>"

definition siteGhostLatest ::
  "(DocMetadataBase, (string \<times> OrderItem) list, string \<times> string) Plugin" where
  "siteGhostLatest = site\<lparr>latestVersion := Some ''9.9''\<rparr>"

text \<open>
  Sites with the single version \<^verbatim>\<open>current\<close>, given by its documents and its order
  entries.
\<close>

definition siteOf ::
  "DocMetadataBase list \<Rightarrow> (string \<times> OrderItem) list \<Rightarrow>
     (DocMetadataBase, (string \<times> OrderItem) list, string \<times> string) Plugin" where
  "siteOf ds entries =
     site\<lparr>versionsMetadata := [vCurrent],
          readVersionDocs := (\<lambda>versionMetadata. Inr ds),
          loadSidebars := (\<lambda>paths. Inr entries)\<rparr>"

definition inSidebar :: "string option \<Rightarrow> string option \<Rightarrow> string \<Rightarrow> OrderItem" where
  "inSidebar p n sb =
     \<lparr>OrderItem.previous = p, OrderItem.next = n, OrderItem.sidebar = Some sb\<rparr>"


text \<open>
  Two documents \<^verbatim>\<open>x1\<close> and \<^verbatim>\<open>x2\<close> with the same slug, hence the same permalink, in
  the sidebars \<^verbatim>\<open>one\<close> and \<^verbatim>\<open>two\<close>.
\<close>

definition docX1 :: DocMetadataBase where
  "docX1 = (mkDoc [] ''x1'' ''First'' ''/x'')\<lparr>permalink := ''/docs/x''\<rparr>"
definition docX2 :: DocMetadataBase where
  "docX2 = (mkDoc [] ''x2'' ''Second'' ''/x'')\<lparr>permalink := ''/docs/x''\<rparr>"

definition siteSamePermalink ::
  "(DocMetadataBase, (string \<times> OrderItem) list, string \<times> string) Plugin" where
  "siteSamePermalink =
     siteOf [docX1, docX2]
       [(''x1'', inSidebar None None ''one''), (''x2'', inSidebar None None ''two'')]"

text \<open>The document \<^verbatim>\<open>b\<close> alone, in a sidebar whose name is the empty string.\<close>

definition siteEmptySidebarName ::
  "(DocMetadataBase, (string \<times> OrderItem) list, string \<times> string) Plugin" where
  "siteEmptySidebarName = siteOf [docB] [(''b'', inSidebar None None [])]"

text \<open>A document whose permalink is \<^verbatim>\<open>__proto__\<close>, in the sidebar \<^verbatim>\<open>docs\<close>.\<close>

definition docP :: DocMetadataBase where
  "docP = (mkDoc [] ''p'' ''Proto'' ''/p'')\<lparr>permalink := ''__proto__''\<rparr>"

definition siteProtoPermalink ::
  "(DocMetadataBase, (string \<times> OrderItem) list, string \<times> string) Plugin" where
  "siteProtoPermalink = siteOf [docP] [(''p'', inSidebar None None ''docs'')]"

section \<open>Facts about the library functions\<close>

lemma collect_map_Inr: "collect (map Inr xs) = Inr xs"
  by (induction xs) auto

lemma collect_InrD: "collect rs = Inr xs \<Longrightarrow> rs = map Inr xs"
  by (induction rs arbitrary: xs rule: collect.induct) (auto split: sum.splits)

lemma collect_Inl_iff: "(\<exists>e. collect rs = Inl e) \<longleftrightarrow> (\<exists>e. Inl e \<in> set rs)"
  by (induction rs rule: collect.induct) (auto split: sum.splits)

lemma array_map_InrD: "array_map f xs = Inr ys \<Longrightarrow> map f xs = map Inr ys"
  by (simp add: array_map_def collect_InrD)

lemma array_map_nth:
  assumes "array_map f xs = Inr ys"
  shows "length ys = length xs" and "i < length xs \<Longrightarrow> f (xs ! i) = Inr (ys ! i)"
proof -
  have eq: "map f xs = map Inr ys" using assms by (rule array_map_InrD)
  then show len: "length ys = length xs" by (metis length_map)
  assume "i < length xs"
  then show "f (xs ! i) = Inr (ys ! i)" using eq len by (metis nth_map)
qed


lemma set_insort_cmp: "set (insort_cmp cmp x ys) = insert x (set ys)"
  by (induction ys) auto

lemma set_array_sort: "set (array_sort cmp xs) = set xs"
  by (induction xs) (auto simp: array_sort_def set_insort_cmp)

lemma distinct_map_insort_cmp:
  "distinct (map f (insort_cmp cmp x ys)) \<longleftrightarrow> f x \<notin> f ` set ys \<and> distinct (map f ys)"
  by (induction ys) (auto simp: set_insort_cmp)

lemma distinct_map_array_sort:
  "distinct (map f (array_sort cmp xs)) \<longleftrightarrow> distinct (map f xs)"
proof (induction xs)
  case Nil
  then show ?case by (simp add: array_sort_def)
next
  case (Cons x xs)
  have "array_sort cmp (x # xs) = insort_cmp cmp x (array_sort cmp xs)"
    by (simp add: array_sort_def)
  then show ?case using Cons by (simp add: distinct_map_insort_cmp set_array_sort)
qed



section \<open>Facts about the plugin\<close>

lemma addNavData_truncate:
  "addNavData docsById docsOrder doc = Inr dm \<Longrightarrow> DocMetadataBase.truncate dm = doc"
  by (auto simp: addNavData_def Let_def DocMetadataBase.defs DocMetadata.defs
      split: sum.splits)

lemma truncate_fields:
  "id' (DocMetadataBase.truncate dm) = id' dm"
  "permalink (DocMetadataBase.truncate dm) = permalink dm"
  by (simp_all add: DocMetadataBase.defs)

lemma LoadedVersion_sel:
  "versionName (VersionMetadata.extend vm (LoadedVersion.fields vp m sb pts ds)) = versionName vm"
  "versionPath (VersionMetadata.extend vm (LoadedVersion.fields vp m sb pts ds)) = vp"
  "mainDocId (VersionMetadata.extend vm (LoadedVersion.fields vp m sb pts ds)) = m"
  "sidebars (VersionMetadata.extend vm (LoadedVersion.fields vp m sb pts ds)) = sb"
  "permalinkToSidebar (VersionMetadata.extend vm (LoadedVersion.fields vp m sb pts ds)) = pts"
  "docs (VersionMetadata.extend vm (LoadedVersion.fields vp m sb pts ds)) = ds"
  by (simp_all add: VersionMetadata.defs LoadedVersion.defs)

lemma loadVersion_InrD:
  assumes "snd (loadVersion P vm s) = Inr lv"
  shows "\<exists>docs0 sb ord md.
    loadVersionDocs P vm = Inr docs0 \<and>
    loadSidebars P [sidebarPath vm] = Inr sb \<and>
    createOrder P sb = Inr ord \<and>
    array_map (addNavData (keyBy docs0 id') ord) docs0 = Inr (docs lv) \<and>
    (find (\<lambda>doc. Some (unversionedId doc) = homePageId (options P) \<or> slug doc = ''/'') docs0
       = Some md
     \<or> find (\<lambda>doc. Some (unversionedId doc) = homePageId (options P) \<or> slug doc = ''/'') docs0
       = None \<and> (\<exists>rest. docs0 = md # rest)) \<and>
    mainDocId lv = unversionedId md \<and>
    sidebars lv = sb \<and>
    versionName lv = versionName vm \<and>
    versionPath lv = normalizeUrl P [baseUrl (context' P), routeBasePath (options P),
                                     getVersionPathPart P (versionName vm)] \<and>
    permalinkToSidebar lv =
      foldl (\<lambda>m loadedDoc.
               (case docSidebarName ord (id' loadedDoc) of
                  None \<Rightarrow> m
                | Some n \<Rightarrow>
                    if n = [] then m else assignProperty m (permalink loadedDoc) n))
        Map.empty (array_sort (\<lambda>a b. localeCompare P (id' a) (id' b)) (docs lv))"
  using assms
  unfolding loadVersion_def Let_def
  by (auto simp: LoadedVersion_sel split: sum.splits option.splits list.splits)

lemma loadVersion_docs_truncate:
  assumes "loadVersionDocs P vm = Inr ds" and "snd (loadVersion P vm s) = Inr lv"
  shows "map DocMetadataBase.truncate (docs lv) = ds"
proof -
  from loadVersion_InrD[OF assms(2)] assms(1) obtain ord where
    am: "array_map (addNavData (keyBy ds id') ord) ds = Inr (docs lv)"
    by auto
  show ?thesis
  proof (rule nth_equalityI)
    show "length (map DocMetadataBase.truncate (docs lv)) = length ds"
      using array_map_nth(1)[OF am] by simp
  next
    fix i assume "i < length (map DocMetadataBase.truncate (docs lv))"
    then have i: "i < length ds" using array_map_nth(1)[OF am] by simp
    from array_map_nth(2)[OF am] i
    have "addNavData (keyBy ds id') ord (ds ! i) = Inr (docs lv ! i)" by simp
    then have "DocMetadataBase.truncate (docs lv ! i) = ds ! i" by (rule addNavData_truncate)
    then show "map DocMetadataBase.truncate (docs lv) ! i = ds ! i"
      using i array_map_nth(1)[OF am] by simp
  qed
qed

lemma snd_loadVersion_indep: "snd (loadVersion P vm s) = snd (loadVersion P vm t)"
  unfolding loadVersion_def Let_def
  by (simp split: sum.splits option.splits)

lemma addNavData_no_entry:
  "docsOrder (id' doc) = None \<Longrightarrow>
   addNavData docsById docsOrder doc
     = Inr (DocMetadataBase.extend doc (DocMetadata.fields None None None))"
  by (simp add: addNavData_def navLink_def)

lemma DocMetadata_sel:
  "DocMetadata.sidebar (DocMetadataBase.extend d (DocMetadata.fields sb p n)) = sb"
  "DocMetadata.previous (DocMetadataBase.extend d (DocMetadata.fields sb p n)) = p"
  "DocMetadata.next (DocMetadataBase.extend d (DocMetadata.fields sb p n)) = n"
  "DocMetadataBase.truncate (DocMetadataBase.extend d (DocMetadata.fields sb p n)) = d"
  by (simp_all add: DocMetadataBase.defs DocMetadata.defs)

lemma array_map_mem:
  assumes "array_map f xs = Inr ys" and "x \<in> set xs"
  shows "\<exists>y\<in>set ys. f x = Inr y"
proof -
  from assms(2) obtain i where i: "i < length xs" "xs ! i = x"
    by (auto simp: in_set_conv_nth)
  with array_map_nth[OF assms(1)] have "i < length ys" "f x = Inr (ys ! i)" by auto
  then show ?thesis using nth_mem by blast
qed




lemma sidebar_foldl_outside:
  "p \<notin> k ` set xs \<Longrightarrow>
   foldl (\<lambda>m x. case g x of None \<Rightarrow> m | Some n \<Rightarrow> if n = [] then m else m(k x \<mapsto> n)) m0 xs p
     = m0 p"
  by (induction xs arbitrary: m0) (auto split: option.splits)

lemma sidebar_foldl_inside:
  "distinct (map k xs) \<Longrightarrow> x \<in> set xs \<Longrightarrow>
   foldl (\<lambda>m x. case g x of None \<Rightarrow> m | Some n \<Rightarrow> if n = [] then m else m(k x \<mapsto> n)) m0 xs (k x)
     = (case g x of None \<Rightarrow> m0 (k x) | Some n \<Rightarrow> if n = [] then m0 (k x) else Some n)"
proof (induction xs arbitrary: m0)
  case Nil
  then show ?case by simp
next
  case (Cons y ys)
  let ?F = "\<lambda>m x. case g x of None \<Rightarrow> m | Some n \<Rightarrow> if n = [] then m else m(k x \<mapsto> n)"
  have step: "foldl ?F m0 (y # ys) (k x) = foldl ?F (?F m0 y) ys (k x)"
    by (simp only: foldl_Cons)
  show ?case
  proof (cases "x = y")
    case True
    with Cons.prems have "k x \<notin> k ` set ys" by auto
    then have "foldl ?F (?F m0 y) ys (k x) = ?F m0 y (k x)"
      by (rule sidebar_foldl_outside)
    with True step show ?thesis by (simp split: option.splits)
  next
    case False
    with Cons.prems have x: "x \<in> set ys" and d: "distinct (map k ys)" by auto
    from Cons.prems(1) have nin: "k y \<notin> k ` set ys" by simp
    have ne: "k x \<noteq> k y"
    proof
      assume e: "k x = k y"
      from x have "k x \<in> k ` set ys" by (rule imageI)
      with e nin show False by simp
    qed
    from Cons.IH[OF d x, of "?F m0 y"] ne step show ?thesis
      by (simp split: option.splits)
  qed
qed

lemma sidebar_foldl_assign:
  "\<forall>x\<in>set xs. k x \<noteq> ''__proto__'' \<Longrightarrow>
   foldl (\<lambda>m x. case g x of None \<Rightarrow> m
                  | Some n \<Rightarrow> if n = [] then m else assignProperty m (k x) n) m0 xs
     = foldl (\<lambda>m x. case g x of None \<Rightarrow> m
                    | Some n \<Rightarrow> if n = [] then m else m(k x \<mapsto> n)) m0 xs"
  by (rule foldl_cong) (auto simp: assignProperty_def split: option.splits)

section \<open>When loading a version succeeds\<close>

text \<open>
  \<^verbatim>\<open>loadVersion\<close> returns a loaded version when the documents are read and there is at
  least one, the sidebars and the order are loaded, and every neighbour that the order
  names for a document of the version is the id of a document of the version.
\<close>

lemma keyBy_foldl_dom:
  "k \<in> f ` set xs \<or> m0 k \<noteq> None \<Longrightarrow> foldl (\<lambda>m x. m(f x \<mapsto> x)) m0 xs k \<noteq> None"
proof (induction xs arbitrary: m0)
  case Nil
  then show ?case by simp
next
  case (Cons a xs)
  have "k \<in> f ` set xs \<or> (m0(f a \<mapsto> a)) k \<noteq> None" using Cons.prems by auto
  from Cons.IH[of "m0(f a \<mapsto> a)", OF this] show ?case unfolding foldl_Cons .
qed

lemma keyBy_dom: "k \<in> f ` set xs \<Longrightarrow> keyBy xs f k \<noteq> None"
  using keyBy_foldl_dom[of k f xs Map.empty] by (simp add: keyBy_def)

lemma collect_total: "(\<forall>r\<in>set rs. \<exists>x. r = Inr x) \<Longrightarrow> \<exists>xs. collect rs = Inr xs"
  by (induction rs rule: collect.induct) auto

lemma navLink_total:
  "(\<forall>i. navId = Some i \<and> i \<noteq> [] \<longrightarrow> docsById i \<noteq> None) \<Longrightarrow> \<exists>l. navLink docsById navId = Inr l"
  by (auto simp: navLink_def toDocNavLink_def split: option.splits)

lemma addNavData_total:
  assumes "\<forall>e i. docsOrder (id' doc) = Some e \<and> (OrderItem.previous e = Some i \<or> OrderItem.next e = Some i)
             \<and> i \<noteq> [] \<longrightarrow> docsById i \<noteq> None"
  shows "\<exists>dm. addNavData docsById docsOrder doc = Inr dm"
proof -
  let ?e = "case docsOrder (id' doc) of None \<Rightarrow> \<lparr>OrderItem.previous = None, OrderItem.next = None,
                               OrderItem.sidebar = None\<rparr> | Some e \<Rightarrow> e"
  have "\<forall>i. OrderItem.previous ?e = Some i \<and> i \<noteq> [] \<longrightarrow> docsById i \<noteq> None"
    using assms by (auto split: option.splits)
  then obtain p where p: "navLink docsById (OrderItem.previous ?e) = Inr p"
    using navLink_total by blast
  have "\<forall>i. OrderItem.next ?e = Some i \<and> i \<noteq> [] \<longrightarrow> docsById i \<noteq> None"
    using assms by (auto split: option.splits)
  then obtain n where n: "navLink docsById (OrderItem.next ?e) = Inr n"
    using navLink_total by blast
  from p n show ?thesis by (simp add: addNavData_def Let_def)
qed

lemma loadVersion_returns:
  assumes "loadVersionDocs P vm = Inr ds" and "ds \<noteq> []"
    and "loadSidebars P [sidebarPath vm] = Inr sb"
    and "createOrder P sb = Inr ord"
    and "\<forall>d\<in>set ds. \<forall>e i. ord (id' d) = Some e
           \<and> (OrderItem.previous e = Some i \<or> OrderItem.next e = Some i) \<and> i \<noteq> []
           \<longrightarrow> i \<in> id' ` set ds"
  shows "\<exists>lv. snd (loadVersion P vm s) = Inr lv"
proof -
  have "\<forall>r\<in>set (map (addNavData (keyBy ds id') ord) ds). \<exists>x. r = Inr x"
  proof
    fix r assume "r \<in> set (map (addNavData (keyBy ds id') ord) ds)"
    then obtain d where d: "d \<in> set ds" "r = addNavData (keyBy ds id') ord d" by auto
    have "\<forall>e i. ord (id' d) = Some e \<and> (OrderItem.previous e = Some i \<or> OrderItem.next e = Some i)
             \<and> i \<noteq> [] \<longrightarrow> keyBy ds id' i \<noteq> None"
      using assms(5) d(1) keyBy_dom[of _ id' ds] by blast
    from addNavData_total[of ord d "keyBy ds id'", OF this] d(2) show "\<exists>x. r = Inr x" by auto
  qed
  from collect_total[OF this] obtain dms where
    "collect (map (addNavData (keyBy ds id') ord) ds) = Inr dms" by blast
  then have dms: "array_map (addNavData (keyBy ds id') ord) ds = Inr dms"
    by (simp add: array_map_def)
  from assms(2) obtain d rest where ds: "ds = d # rest" by (cases ds) auto
  show ?thesis
    unfolding loadVersion_def Let_def
    using assms(1,3,4) dms ds
    by (simp split: option.splits)
qed

section \<open>Running the small site\<close>

lemma not_isl_Inr: "\<not> isl r \<Longrightarrow> \<exists>x. r = Inr x"
  by (cases r) auto

lemma site_docs_current: "loadVersionDocs site vCurrent = Inr [docB, docA, docC]"
  by code_simp

lemma site_docs_20: "loadVersionDocs site v20 = Inr [docHome, docIntro]"
  by code_simp

lemma site_docs_10: "loadVersionDocs site v10 = Inr []"
  by code_simp

lemma site_loads_current: "\<exists>lv. snd (loadVersion site vCurrent Map.empty) = Inr lv"
proof -
  have "\<not> isl (snd (loadVersion site vCurrent Map.empty))" by code_simp
  then show ?thesis by (rule not_isl_Inr)
qed

lemma site_loads_20: "\<exists>lv. snd (loadVersion site v20 Map.empty) = Inr lv"
proof -
  have "\<not> isl (snd (loadVersion site v20 Map.empty))" by code_simp
  then show ?thesis by (rule not_isl_Inr)
qed

lemma site_sidebars_current:
  "\<exists>sb. loadSidebars site [sidebarPath vCurrent] = Inr sb \<and>
        createOrder site sb = Inr (map_of sb) \<and>
        map_of sb ''b'' = Some \<lparr>OrderItem.previous = None, OrderItem.next = Some ''a'',
                                 OrderItem.sidebar = Some ''docs''\<rparr> \<and>
        map_of sb ''a'' = Some \<lparr>OrderItem.previous = Some ''b'', OrderItem.next = None,
                                 OrderItem.sidebar = Some ''docs''\<rparr> \<and>
        map_of sb ''c'' = None"
proof -
  let ?sb = "[(''b'', \<lparr>OrderItem.previous = None, OrderItem.next = Some ''a'',
                       OrderItem.sidebar = Some ''docs''\<rparr>),
              (''a'', \<lparr>OrderItem.previous = Some ''b'', OrderItem.next = None,
                       OrderItem.sidebar = Some ''docs''\<rparr>)]"
  have "loadSidebars site [sidebarPath vCurrent] = Inr ?sb" by code_simp
  moreover have "createOrder site ?sb = Inr (map_of ?sb)" by (simp add: site_def)
  ultimately show ?thesis by (intro exI[of _ ?sb]) simp
qed

lemma site_ids: "id' docA = ''a''" "id' docB = ''b''" "id' docC = ''c''"
  by code_simp+


section \<open>The shared table and the list of versions\<close>

lemma assignProperty_add: "assignProperty (s ++ w) k v = s ++ assignProperty w k v"
  by (simp add: assignProperty_def)

lemma foldl_assign_add:
  "foldl (\<lambda>m d. assignProperty m (k d) (v d)) s xs
     = s ++ foldl (\<lambda>m d. assignProperty m (k d) (v d)) Map.empty xs"
proof (induction xs rule: rev_induct)
  case Nil
  then show ?case by simp
next
  case (snoc x xs)
  have "foldl (\<lambda>m d. assignProperty m (k d) (v d)) s (xs @ [x])
          = assignProperty (foldl (\<lambda>m d. assignProperty m (k d) (v d)) s xs) (k x) (v x)"
    by (simp only: foldl_append foldl_Cons foldl_Nil)
  also have "\<dots> = assignProperty
                    (s ++ foldl (\<lambda>m d. assignProperty m (k d) (v d)) Map.empty xs) (k x) (v x)"
    by (simp only: snoc.IH)
  also have "\<dots> = s ++ assignProperty
                    (foldl (\<lambda>m d. assignProperty m (k d) (v d)) Map.empty xs) (k x) (v x)"
    by (simp only: assignProperty_add)
  also have "\<dots> = s ++ foldl (\<lambda>m d. assignProperty m (k d) (v d)) Map.empty (xs @ [x])"
    by (simp only: foldl_append foldl_Cons foldl_Nil)
  finally show ?case .
qed

lemma fst_loadVersion_add:
  "fst (loadVersion P vm s) = s ++ fst (loadVersion P vm Map.empty)"
  unfolding loadVersion_def Let_def
  by (auto split: sum.splits option.splits simp: foldl_assign_add[of _ _ s])

lemma fst_loadVersions_add:
  "fst (loadVersions P vms s) = s ++ fst (loadVersions P vms Map.empty)"
proof (induction vms arbitrary: s)
  case Nil
  then show ?case by simp
next
  case (Cons vm vms)
  have step: "fst (loadVersions P (vm # vms) u) = fst (loadVersions P vms (fst (loadVersion P vm u)))"
    for u by (simp split: prod.splits)
  have "fst (loadVersions P (vm # vms) s)
          = fst (loadVersion P vm s) ++ fst (loadVersions P vms Map.empty)"
    using Cons.IH[of "fst (loadVersion P vm s)"] by (simp only: step)
  also have "\<dots> = s ++ (fst (loadVersion P vm Map.empty) ++ fst (loadVersions P vms Map.empty))"
    using fst_loadVersion_add[of P vm s] by (simp only: map_add_assoc)
  also have "fst (loadVersion P vm Map.empty) ++ fst (loadVersions P vms Map.empty)
          = fst (loadVersions P (vm # vms) Map.empty)"
    using Cons.IH[of "fst (loadVersion P vm Map.empty)"] by (simp only: step)
  finally show ?case .
qed

lemma snd_loadVersions:
  "snd (loadVersions P vms s) = map (\<lambda>vm. snd (loadVersion P vm Map.empty)) vms"
proof (induction vms arbitrary: s)
  case Nil
  then show ?case by simp
next
  case (Cons vm vms)
  have "snd (loadVersions P (vm # vms) s)
          = snd (loadVersion P vm s) # snd (loadVersions P vms (fst (loadVersion P vm s)))"
    by (simp split: prod.splits)
  then show ?case
    using Cons.IH snd_loadVersion_indep[of P vm s Map.empty] by simp
qed

lemma fst_loadContent: "fst (loadContent P s) = fst (loadVersions P (versionsMetadata P) s)"
  by (simp add: loadContent_def split: prod.splits)

lemma snd_loadContent:
  "snd (loadContent P s) =
     (case collect (map (\<lambda>vm. snd (loadVersion P vm Map.empty)) (versionsMetadata P)) of
        Inl e \<Rightarrow> Inl e
      | Inr lvs \<Rightarrow> Inr \<lparr>loadedVersions = lvs\<rparr>)"
proof -
  have "snd (loadContent P s) =
     (case collect (snd (loadVersions P (versionsMetadata P) s)) of
        Inl e \<Rightarrow> Inl e
      | Inr lvs \<Rightarrow> Inr \<lparr>loadedVersions = lvs\<rparr>)"
    by (simp add: loadContent_def Promise_all_def split: prod.splits)
  then show ?thesis by (simp only: snd_loadVersions)
qed

lemma map_add_twice: "(s ++ w) ++ w = s ++ (w :: 'a \<rightharpoonup> 'b)"
  by (rule ext) (simp add: map_add_def split: option.splits)

lemma map_sum_unit_Inl: "map_sum id (\<lambda>_. ()) r = Inl e \<Longrightarrow> r = Inl e"
  by (cases r) auto

lemma loadContent_InrD:
  assumes "snd (loadContent P s) = Inr content"
  shows "map (\<lambda>vm. snd (loadVersion P vm Map.empty)) (versionsMetadata P)
           = map Inr (loadedVersions content)"
proof -
  from assms obtain lvs where
    c: "collect (map (\<lambda>vm. snd (loadVersion P vm Map.empty)) (versionsMetadata P)) = Inr lvs"
    and l: "content = \<lparr>loadedVersions = lvs\<rparr>"
    by (auto simp: snd_loadContent split: sum.splits)
  from c have "map (\<lambda>vm. snd (loadVersion P vm Map.empty)) (versionsMetadata P) = map Inr lvs"
    by (rule collect_InrD)
  with l show ?thesis by simp
qed

lemma loadContent_nth:
  assumes "snd (loadContent P s) = Inr content"
  shows "length (loadedVersions content) = length (versionsMetadata P)"
    and "i < length (versionsMetadata P) \<Longrightarrow>
         snd (loadVersion P (versionsMetadata P ! i) Map.empty) = Inr (loadedVersions content ! i)"
proof -
  note eq = loadContent_InrD[OF assms]
  then show len: "length (loadedVersions content) = length (versionsMetadata P)"
    by (metis length_map)
  assume "i < length (versionsMetadata P)"
  then show "snd (loadVersion P (versionsMetadata P ! i) Map.empty) = Inr (loadedVersions content ! i)"
    using eq len by (metis nth_map)
qed

lemma loadContent_versionNames:
  assumes "snd (loadContent P s) = Inr content"
  shows "map versionName (loadedVersions content) = map versionName (versionsMetadata P)"
proof (rule nth_equalityI)
  show "length (map versionName (loadedVersions content)) = length (map versionName (versionsMetadata P))"
    using loadContent_nth(1)[OF assms] by simp
next
  fix i assume "i < length (map versionName (loadedVersions content))"
  then have i: "i < length (versionsMetadata P)" using loadContent_nth(1)[OF assms] by simp
  from loadVersion_InrD[OF loadContent_nth(2)[OF assms i]]
  have "versionName (loadedVersions content ! i) = versionName (versionsMetadata P ! i)" by blast
  then show "map versionName (loadedVersions content) ! i = map versionName (versionsMetadata P) ! i"
    using i loadContent_nth(1)[OF assms] by simp
qed

lemma distinct_filter_le_1:
  "distinct (map f xs) \<Longrightarrow> length (filter (\<lambda>x. f x = k) xs) \<le> 1"
  by (induction xs) (auto simp: filter_empty_conv image_iff)

section \<open>The claims\<close>

text \<open>
  Claim C1, as amended. The main document of a loaded version is the first document, in
  the order in which the documents were read, whose unversioned id is the configured home
  id or whose slug is exactly \<^verbatim>\<open>/\<close>; when no document is either, it is the first
  document read. \<^verbatim>\<open>mainDocId\<close> is the unversioned id of that document. The two tests
  are one disjunction in a single \<^verbatim>\<open>find\<close>, so neither has priority over the other, and
  the fallback \<^verbatim>\<open>docs[0]\<close> reads the list as it was read, not the sorted copy.
\<close>

theorem loadVersion_mainDocId:
  assumes "loadVersionDocs P vm = Inr ds" and "snd (loadVersion P vm s) = Inr lv"
  shows "\<exists>md. mainDocId lv = unversionedId md \<and>
           (find (\<lambda>doc. Some (unversionedId doc) = homePageId (options P) \<or> slug doc = ''/'') ds
              = Some md
            \<or> find (\<lambda>doc. Some (unversionedId doc) = homePageId (options P) \<or> slug doc = ''/'') ds
              = None \<and> (\<exists>rest. ds = md # rest))"
  using loadVersion_InrD[OF assms(2)] assms(1) by auto

theorem loadVersion_mainDocId_witness:
  "\<exists>lv lv'. loadVersionDocs site v20 = Inr [docHome, docIntro] \<and>
        snd (loadVersion site v20 Map.empty) = Inr lv \<and>
        mainDocId lv = ''home'' \<and>
        loadVersionDocs site vCurrent = Inr [docB, docA, docC] \<and>
        snd (loadVersion site vCurrent Map.empty) = Inr lv' \<and>
        mainDocId lv' = ''b''"
proof -
  obtain lv where lv: "snd (loadVersion site v20 Map.empty) = Inr lv"
    using site_loads_20 by blast
  obtain lv' where lv': "snd (loadVersion site vCurrent Map.empty) = Inr lv'"
    using site_loads_current by blast
  have f: "find (\<lambda>doc. Some (unversionedId doc) = homePageId (options site) \<or> slug doc = ''/'')
             [docHome, docIntro] = Some docHome"
    by code_simp
  have f': "find (\<lambda>doc. Some (unversionedId doc) = homePageId (options site) \<or> slug doc = ''/'')
             [docB, docA, docC] = None"
    by code_simp
  have u: "unversionedId docHome = ''home''" "unversionedId docB = ''b''"
    by code_simp+
  from loadVersion_mainDocId[OF site_docs_20 lv] f u have m: "mainDocId lv = ''home''"
    by auto
  from loadVersion_mainDocId[OF site_docs_current lv'] f' u have m': "mainDocId lv' = ''b''"
    by auto
  from site_docs_20 lv m site_docs_current lv' m' show ?thesis
    by (intro exI[of _ lv] exI[of _ lv'] conjI)
qed

text \<open>
  Claim C1 as first stated fails on the small site. In version \<^verbatim>\<open>2.0\<close> the document
  \<^verbatim>\<open>home\<close> (the configured home id) is read before \<^verbatim>\<open>intro\<close> (slug \<^verbatim>\<open>/\<close>): the code
  chooses \<^verbatim>\<open>home\<close>, the specification's rule \<^verbatim>\<open>intro\<close>. In version \<^verbatim>\<open>current\<close> no
  document is a home document and the documents are read as \<^verbatim>\<open>b\<close>, \<^verbatim>\<open>a\<close>, \<^verbatim>\<open>c\<close>: the
  code chooses \<^verbatim>\<open>b\<close>, the specification's rule \<^verbatim>\<open>a\<close>, the first after the sort by id.
\<close>

theorem loadVersion_mainDocId_counterexample:
  "loadVersionDocs site v20 = Inr [docHome, docIntro] \<and>
   map_sum id mainDocId (snd (loadVersion site v20 Map.empty)) = Inr ''home'' \<and>
   map_option unversionedId
     (spec_mainDoc (localeCompare site) (homePageId (options site)) [docHome, docIntro])
     = Some ''intro'' \<and>
   loadVersionDocs site vCurrent = Inr [docB, docA, docC] \<and>
   map_sum id mainDocId (snd (loadVersion site vCurrent Map.empty)) = Inr ''b'' \<and>
   map_option unversionedId
     (spec_mainDoc (localeCompare site) (homePageId (options site)) [docB, docA, docC])
     = Some ''a''"
proof (intro conjI)
  show "map_sum id mainDocId (snd (loadVersion site v20 Map.empty)) = Inr ''home''"
    by code_simp
  show "map_option unversionedId
     (spec_mainDoc (localeCompare site) (homePageId (options site)) [docHome, docIntro])
     = Some ''intro''"
    by code_simp
  show "map_sum id mainDocId (snd (loadVersion site vCurrent Map.empty)) = Inr ''b''"
    by code_simp
  show "map_option unversionedId
     (spec_mainDoc (localeCompare site) (homePageId (options site)) [docB, docA, docC])
     = Some ''a''"
    by code_simp
qed (rule site_docs_20, rule site_docs_current)

text \<open>
  Claim C2. \<^verbatim>\<open>getVersionPathPart\<close> returns the empty string for the latest version,
  \<^verbatim>\<open>next\<close> for the current version and the name itself for any other version. The test
  for the latest version comes first, so the current version gets \<^verbatim>\<open>next\<close> when it is
  not also the latest one. With \<^verbatim>\<open>2.0\<close> the latest version, the versions \<^verbatim>\<open>2.0\<close>,
  \<^verbatim>\<open>1.0\<close> and \<^verbatim>\<open>current\<close> get the fragments \<^verbatim>\<open>""\<close>, \<^verbatim>\<open>1.0\<close> and \<^verbatim>\<open>next\<close>.
\<close>

theorem getVersionPathPart_fragments:
  "(Some v = latestVersion P \<longrightarrow> getVersionPathPart P v = []) \<and>
   (Some v \<noteq> latestVersion P \<and> v = CURRENT_VERSION_NAME \<longrightarrow> getVersionPathPart P v = ''next'') \<and>
   (Some v \<noteq> latestVersion P \<and> v \<noteq> CURRENT_VERSION_NAME \<longrightarrow> getVersionPathPart P v = v) \<and>
   (latestVersion P = Some ''2.0'' \<longrightarrow>
      map (getVersionPathPart P) [''2.0'', ''1.0'', CURRENT_VERSION_NAME] = [[], ''1.0'', ''next''])"
proof (intro conjI impI)
  assume "latestVersion P = Some ''2.0''"
  then show "map (getVersionPathPart P) [''2.0'', ''1.0'', CURRENT_VERSION_NAME]
               = [[], ''1.0'', ''next'']"
    by (simp add: getVersionPathPart_def CURRENT_VERSION_NAME_def)
qed (auto simp: getVersionPathPart_def)

theorem getVersionPathPart_fragments_witness:
  "latestVersion site = Some ''2.0'' \<and>
   getVersionPathPart site ''2.0'' = [] \<and>
   getVersionPathPart site ''current'' = ''next'' \<and>
   getVersionPathPart site ''1.0'' = ''1.0'' \<and>
   map (getVersionPathPart site) [''2.0'', ''1.0'', ''current''] = [[], ''1.0'', ''next'']"
  using getVersionPathPart_fragments[of "''2.0''" site]
    getVersionPathPart_fragments[of "''current''" site]
    getVersionPathPart_fragments[of "''1.0''" site]
  by (simp add: site_def CURRENT_VERSION_NAME_def)

text \<open>
  Claim C3. For a document of a version whose id has no entry in the sidebar order,
  \<^verbatim>\<open>addNavData\<close> succeeds and returns the document with \<^verbatim>\<open>sidebar\<close>, \<^verbatim>\<open>previous\<close> and
  \<^verbatim>\<open>next\<close> all \<^verbatim>\<open>undefined\<close>, and that record is among the \<^verbatim>\<open>docs\<close> of the loaded
  version whenever \<^verbatim>\<open>loadVersion\<close> returns one.
\<close>

theorem addNavData_outside_sidebars:
  assumes "loadVersionDocs P vm = Inr ds"
    and "loadSidebars P [sidebarPath vm] = Inr sb"
    and "createOrder P sb = Inr ord"
    and "doc \<in> set ds"
    and "ord (id' doc) = None"
  shows "\<exists>dm. addNavData docsById ord doc = Inr dm \<and>
           DocMetadataBase.truncate dm = doc \<and>
           DocMetadata.sidebar dm = None \<and>
           DocMetadata.previous dm = None \<and>
           DocMetadata.next dm = None \<and>
           (\<forall>lv. snd (loadVersion P vm s) = Inr lv \<longrightarrow> dm \<in> set (docs lv))"
proof -
  let ?dm = "DocMetadataBase.extend doc (DocMetadata.fields None None None)"
  have a: "addNavData m ord doc = Inr ?dm" for m
    using assms(5) by (rule addNavData_no_entry)
  have "?dm \<in> set (docs lv)" if lv: "snd (loadVersion P vm s) = Inr lv" for lv
  proof -
    from loadVersion_InrD[OF lv] assms(1,2,3)
    have am: "array_map (addNavData (keyBy ds id') ord) ds = Inr (docs lv)" by auto
    from array_map_mem[OF am assms(4)] a show ?thesis by auto
  qed
  with a show ?thesis by (auto simp: DocMetadata_sel)
qed

theorem addNavData_outside_sidebars_witness:
  "\<exists>lv dm. loadVersionDocs site vCurrent = Inr [docB, docA, docC] \<and>
     docC \<in> set [docB, docA, docC] \<and>
     snd (loadVersion site vCurrent Map.empty) = Inr lv \<and>
     dm \<in> set (docs lv) \<and>
     DocMetadataBase.truncate dm = docC \<and>
     DocMetadata.sidebar dm = None \<and>
     DocMetadata.previous dm = None \<and>
     DocMetadata.next dm = None"
proof -
  obtain sb where sb: "loadSidebars site [sidebarPath vCurrent] = Inr sb"
    "createOrder site sb = Inr (map_of sb)" "map_of sb ''c'' = None"
    using site_sidebars_current by blast
  obtain lv where lv: "snd (loadVersion site vCurrent Map.empty) = Inr lv"
    using site_loads_current by blast
  have m: "docC \<in> set [docB, docA, docC]" by simp
  have n: "map_of sb (id' docC) = None" using sb(3) by (simp add: site_ids)
  from addNavData_outside_sidebars[OF site_docs_current sb(1) sb(2) m n, of Map.empty Map.empty] lv
  obtain dm where "dm \<in> set (docs lv)" "DocMetadataBase.truncate dm = docC"
    "DocMetadata.sidebar dm = None" "DocMetadata.previous dm = None" "DocMetadata.next dm = None"
    by blast
  with site_docs_current m lv show ?thesis by (intro exI[of _ lv] exI[of _ dm] conjI)
qed




text \<open>
  Claim C5, as amended. Take a loaded version whose documents have pairwise different
  permalinks, none of them the key \<^verbatim>\<open>__proto__\<close>, and in which no document has the empty
  string for its sidebar name. Then \<^verbatim>\<open>permalinkToSidebar\<close> maps the permalink of every
  document that the order places in a sidebar to the name of that sidebar, has no entry
  for a document outside every sidebar, has no entry under any other key, and has as many
  entries as there are documents in sidebars.
\<close>

theorem permalinkToSidebar_entries:
  assumes "loadVersionDocs P vm = Inr ds"
    and "loadSidebars P [sidebarPath vm] = Inr sb"
    and "createOrder P sb = Inr ord"
    and "snd (loadVersion P vm s) = Inr lv"
    and "distinct (map permalink ds)"
    and "\<forall>d\<in>set ds. docSidebarName ord (id' d) \<noteq> Some []"
    and "\<forall>d\<in>set ds. permalink d \<noteq> ''__proto__''"
  shows "(\<forall>d\<in>set ds. permalinkToSidebar lv (permalink d) = docSidebarName ord (id' d)) \<and>
         dom (permalinkToSidebar lv)
           = permalink ` {d \<in> set ds. docSidebarName ord (id' d) \<noteq> None} \<and>
         card (dom (permalinkToSidebar lv))
           = length (filter (\<lambda>d. docSidebarName ord (id' d) \<noteq> None) ds)"
proof -
  let ?g = "\<lambda>dm :: DocMetadata. docSidebarName ord (id' dm)"
  let ?F = "\<lambda>m dm. case ?g dm of None \<Rightarrow> m
                     | Some n \<Rightarrow> if n = [] then m else m(permalink dm \<mapsto> n)"
  let ?sorted = "array_sort (\<lambda>a b. localeCompare P (id' a) (id' b)) (docs lv)"
  let ?A = "\<lambda>m dm. case ?g dm of None \<Rightarrow> m
                     | Some n \<Rightarrow> if n = [] then m else assignProperty m (permalink dm) n"
  from loadVersion_InrD[OF assms(4)] assms(1,2,3)
  have pts0: "permalinkToSidebar lv = foldl ?A Map.empty ?sorted" by auto
  have tr: "map DocMetadataBase.truncate (docs lv) = ds"
    using assms(1,4) by (rule loadVersion_docs_truncate)
  have "map permalink (map DocMetadataBase.truncate (docs lv)) = map permalink (docs lv)"
    by (simp add: truncate_fields)
  with tr have pl: "map permalink (docs lv) = map permalink ds" by simp
  with assms(5) have dist: "distinct (map permalink ?sorted)"
    by (simp add: distinct_map_array_sort)
  have lift: "\<exists>dm\<in>set ?sorted. DocMetadataBase.truncate dm = d" if "d \<in> set ds" for d
  proof -
    from that tr have "d \<in> DocMetadataBase.truncate ` set (docs lv)" by (metis set_map)
    then show ?thesis by (auto simp: set_array_sort)
  qed
  have down: "DocMetadataBase.truncate dm \<in> set ds" if "dm \<in> set ?sorted" for dm
  proof -
    from that have "dm \<in> set (docs lv)" by (simp add: set_array_sort)
    then have "DocMetadataBase.truncate dm \<in> set (map DocMetadataBase.truncate (docs lv))"
      by simp
    with tr show ?thesis by simp
  qed
  have "\<forall>dm\<in>set ?sorted. permalink dm \<noteq> ''__proto__''"
  proof
    fix dm assume "dm \<in> set ?sorted"
    then have "DocMetadataBase.truncate dm \<in> set ds" by (rule down)
    with assms(7) have "permalink (DocMetadataBase.truncate dm) \<noteq> ''__proto__''" by blast
    then show "permalink dm \<noteq> ''__proto__''" by (simp add: truncate_fields)
  qed
  then have "foldl ?A Map.empty ?sorted = foldl ?F Map.empty ?sorted"
    by (rule sidebar_foldl_assign)
  with pts0 have pts: "permalinkToSidebar lv = foldl ?F Map.empty ?sorted" by simp
  have val: "permalinkToSidebar lv (permalink d) = docSidebarName ord (id' d)"
    if d: "d \<in> set ds" for d
  proof -
    from lift[OF d] obtain dm where dm: "dm \<in> set ?sorted" "DocMetadataBase.truncate dm = d"
      by blast
    then have f: "permalink dm = permalink d" "id' dm = id' d"
      using truncate_fields[of dm] by simp_all
    from assms(6) d have ne: "docSidebarName ord (id' d) \<noteq> Some []" by blast
    from sidebar_foldl_inside[OF dist dm(1), of ?g Map.empty]
    have "permalinkToSidebar lv (permalink dm)
            = (case ?g dm of None \<Rightarrow> None | Some n \<Rightarrow> if n = [] then None else Some n)"
      by (simp only: pts)
    with f ne show ?thesis by (simp split: option.splits)
  qed
  have dom_eq: "dom (permalinkToSidebar lv)
           = permalink ` {d \<in> set ds. docSidebarName ord (id' d) \<noteq> None}"
  proof (intro set_eqI iffI)
    fix p assume "p \<in> dom (permalinkToSidebar lv)"
    then have some: "permalinkToSidebar lv p \<noteq> None" by auto
    have "p \<in> permalink ` set ?sorted"
    proof (rule ccontr)
      assume "p \<notin> permalink ` set ?sorted"
      then have "foldl ?F Map.empty ?sorted p = None"
        using sidebar_foldl_outside[of p permalink ?sorted ?g Map.empty] by simp
      with some pts show False by simp
    qed
    then obtain dm where dm: "dm \<in> set ?sorted" "p = permalink dm" by blast
    let ?d = "DocMetadataBase.truncate dm"
    have d: "?d \<in> set ds" using dm(1) by (rule down)
    have "permalink ?d = p" using dm(2) by (simp add: truncate_fields)
    moreover from val[OF d] some this have "docSidebarName ord (id' ?d) \<noteq> None" by simp
    ultimately show "p \<in> permalink ` {d \<in> set ds. docSidebarName ord (id' d) \<noteq> None}"
      using d by blast
  next
    fix p assume "p \<in> permalink ` {d \<in> set ds. docSidebarName ord (id' d) \<noteq> None}"
    then obtain d where "d \<in> set ds" "docSidebarName ord (id' d) \<noteq> None" "p = permalink d"
      by blast
    with val show "p \<in> dom (permalinkToSidebar lv)" by auto
  qed
  have "{d \<in> set ds. docSidebarName ord (id' d) \<noteq> None}
          = set (filter (\<lambda>d. docSidebarName ord (id' d) \<noteq> None) ds)" by auto
  then have im: "permalink ` {d \<in> set ds. docSidebarName ord (id' d) \<noteq> None}
          = set (map permalink (filter (\<lambda>d. docSidebarName ord (id' d) \<noteq> None) ds))"
    by simp
  have "distinct (map permalink (filter (\<lambda>d. docSidebarName ord (id' d) \<noteq> None) ds))"
    using assms(5) by (rule distinct_map_filter)
  then have "card (set (map permalink (filter (\<lambda>d. docSidebarName ord (id' d) \<noteq> None) ds)))
          = length (map permalink (filter (\<lambda>d. docSidebarName ord (id' d) \<noteq> None) ds))"
    by (rule distinct_card)
  with im have "card (permalink ` {d \<in> set ds. docSidebarName ord (id' d) \<noteq> None})
          = length (filter (\<lambda>d. docSidebarName ord (id' d) \<noteq> None) ds)"
    by (simp only: length_map)
  with val dom_eq show ?thesis by simp
qed

theorem permalinkToSidebar_entries_witness:
  "\<exists>lv. loadVersionDocs site vCurrent = Inr [docB, docA, docC] \<and>
     distinct (map permalink [docB, docA, docC]) \<and>
     snd (loadVersion site vCurrent Map.empty) = Inr lv \<and>
     permalinkToSidebar lv (permalink docB) = Some ''docs'' \<and>
     permalinkToSidebar lv (permalink docA) = Some ''docs'' \<and>
     permalinkToSidebar lv (permalink docC) = None \<and>
     card (dom (permalinkToSidebar lv)) = 2"
proof -
  obtain sb where sb: "loadSidebars site [sidebarPath vCurrent] = Inr sb"
    "createOrder site sb = Inr (map_of sb)"
    and oa: "map_of sb ''a'' = Some \<lparr>OrderItem.previous = Some ''b'', OrderItem.next = None,
                                 OrderItem.sidebar = Some ''docs''\<rparr>"
    and ob: "map_of sb ''b'' = Some \<lparr>OrderItem.previous = None, OrderItem.next = Some ''a'',
                                 OrderItem.sidebar = Some ''docs''\<rparr>"
    and oc: "map_of sb ''c'' = None"
    using site_sidebars_current by blast
  obtain lv where lv: "snd (loadVersion site vCurrent Map.empty) = Inr lv"
    using site_loads_current by blast
  have dist: "distinct (map permalink [docB, docA, docC])" by code_simp
  have na: "docSidebarName (map_of sb) (id' docA) = Some ''docs''"
    and nb: "docSidebarName (map_of sb) (id' docB) = Some ''docs''"
    and nc: "docSidebarName (map_of sb) (id' docC) = None"
    using oa ob oc by (simp_all add: docSidebarName_def site_ids)
  then have ne: "\<forall>d\<in>set [docB, docA, docC]. docSidebarName (map_of sb) (id' d) \<noteq> Some []"
    by simp
  have np: "\<forall>d\<in>set [docB, docA, docC]. permalink d \<noteq> ''__proto__''" by code_simp
  note t = permalinkToSidebar_entries[OF site_docs_current sb lv dist ne np]
  from t na nb nc have v: "permalinkToSidebar lv (permalink docB) = Some ''docs''"
    "permalinkToSidebar lv (permalink docA) = Some ''docs''"
    "permalinkToSidebar lv (permalink docC) = None"
    by simp_all
  from t have "card (dom (permalinkToSidebar lv))
      = length (filter (\<lambda>d. docSidebarName (map_of sb) (id' d) \<noteq> None) [docB, docA, docC])"
    by blast
  with na nb nc have c: "card (dom (permalinkToSidebar lv)) = 2" by simp
  from site_docs_current dist lv v c show ?thesis by (intro exI[of _ lv] conjI)
qed

text \<open>
  Claim C5 as first stated fails on three small sites. Two documents \<^verbatim>\<open>x1\<close> and
  \<^verbatim>\<open>x2\<close> share the permalink \<^verbatim>\<open>/docs/x\<close> and lie in the sidebars \<^verbatim>\<open>one\<close> and
  \<^verbatim>\<open>two\<close>: the one entry under their permalink names \<^verbatim>\<open>two\<close>, which is not the
  sidebar of \<^verbatim>\<open>x1\<close>. The document \<^verbatim>\<open>b\<close> lies in a sidebar named by the empty string,
  which its \<^verbatim>\<open>sidebar\<close> field keeps: its permalink has no entry. The document \<^verbatim>\<open>p\<close>
  lies in the sidebar \<^verbatim>\<open>docs\<close> and has the permalink \<^verbatim>\<open>__proto__\<close>: the assignment
  creates no entry.
\<close>

theorem permalinkToSidebar_entries_counterexample:
  "map_sum id (map permalink \<circ> docs) (snd (loadVersion siteSamePermalink vCurrent Map.empty))
     = Inr [''/docs/x'', ''/docs/x''] \<and>
   map_sum id (map DocMetadata.sidebar \<circ> docs)
       (snd (loadVersion siteSamePermalink vCurrent Map.empty))
     = Inr [Some ''one'', Some ''two''] \<and>
   permalinkToSidebar (projr (snd (loadVersion siteSamePermalink vCurrent Map.empty))) ''/docs/x''
     = Some ''two'' \<and>
   map_sum id (map permalink \<circ> docs) (snd (loadVersion siteEmptySidebarName vCurrent Map.empty))
     = Inr [''/docs/b''] \<and>
   map_sum id (map DocMetadata.sidebar \<circ> docs)
       (snd (loadVersion siteEmptySidebarName vCurrent Map.empty))
     = Inr [Some []] \<and>
   permalinkToSidebar (projr (snd (loadVersion siteEmptySidebarName vCurrent Map.empty))) ''/docs/b''
     = None \<and>
   map_sum id (map permalink \<circ> docs) (snd (loadVersion siteProtoPermalink vCurrent Map.empty))
     = Inr [''__proto__''] \<and>
   map_sum id (map DocMetadata.sidebar \<circ> docs)
       (snd (loadVersion siteProtoPermalink vCurrent Map.empty))
     = Inr [Some ''docs''] \<and>
   permalinkToSidebar (projr (snd (loadVersion siteProtoPermalink vCurrent Map.empty))) ''__proto__''
     = None"
  by (intro conjI; code_simp)

text \<open>
  Claim C6. With the collaborators fixed, the outcome of \<^verbatim>\<open>loadContent\<close> does not
  depend on the contents of the shared \<^verbatim>\<open>sourceToPermalink\<close> table, the only state it
  touches: two runs give the same outcome, whatever the table holds. A second run that
  starts from the table the first run left gives the same outcome and leaves the table
  as it found it.
\<close>

theorem loadContent_deterministic:
  "snd (loadContent P s) = snd (loadContent P t) \<and>
   loadContent P (fst (loadContent P s)) = loadContent P s"
proof
  show r: "snd (loadContent P s) = snd (loadContent P t)"
    by (simp only: snd_loadContent)
  have "fst (loadContent P (fst (loadContent P s))) = fst (loadContent P s)"
  proof -
    let ?w = "fst (loadVersions P (versionsMetadata P) Map.empty)"
    have a: "fst (loadContent P u) = u ++ ?w" for u
      using fst_loadVersions_add[of P "versionsMetadata P" u] by (simp only: fst_loadContent)
    show ?thesis by (simp only: a map_add_twice)
  qed
  moreover have "snd (loadContent P (fst (loadContent P s))) = snd (loadContent P s)"
    by (simp only: snd_loadContent)
  ultimately show "loadContent P (fst (loadContent P s)) = loadContent P s"
    by (rule prod_eqI)
qed

theorem loadContent_deterministic_witness:
  "\<exists>content. snd (loadContent site Map.empty) = Inr content \<and>
     snd (loadContent site (fst (loadContent site Map.empty))) = Inr content \<and>
     fst (loadContent site (fst (loadContent site Map.empty))) = fst (loadContent site Map.empty)"
proof -
  have "\<not> isl (snd (loadContent site Map.empty))" by code_simp
  then obtain content where c: "snd (loadContent site Map.empty) = Inr content"
    using not_isl_Inr by blast
  from loadContent_deterministic[of site Map.empty Map.empty]
  have "loadContent site (fst (loadContent site Map.empty)) = loadContent site Map.empty"
    by (rule conjunct2)
  with c show ?thesis by (intro exI[of _ content]) simp
qed

text \<open>
  Claim C7. If \<^verbatim>\<open>loadVersion\<close> fails for one version of the version set, then
  \<^verbatim>\<open>loadContent\<close> fails: it yields no \<^verbatim>\<open>LoadedContent\<close>, whatever the other versions do.
  In the small site with the empty version \<^verbatim>\<open>1.0\<close>, the versions \<^verbatim>\<open>current\<close> and
  \<^verbatim>\<open>2.0\<close> load and \<^verbatim>\<open>loadContent\<close> fails all the same.
\<close>

theorem loadContent_all_or_nothing:
  assumes "vm \<in> set (versionsMetadata P)" and "snd (loadVersion P vm s) = Inl e"
  shows "(\<exists>e'. snd (loadContent P t) = Inl e') \<and> (\<forall>lc. snd (loadContent P t) \<noteq> Inr lc)"
proof -
  from assms(2) have "snd (loadVersion P vm Map.empty) = Inl e"
    using snd_loadVersion_indep[of P vm s Map.empty] by simp
  with assms(1) have "Inl e \<in> set (map (\<lambda>vm. snd (loadVersion P vm Map.empty)) (versionsMetadata P))"
    by force
  then have "\<exists>e'. collect (map (\<lambda>vm. snd (loadVersion P vm Map.empty)) (versionsMetadata P)) = Inl e'"
    using collect_Inl_iff by blast
  then obtain e' where
    "collect (map (\<lambda>vm. snd (loadVersion P vm Map.empty)) (versionsMetadata P)) = Inl e'" ..
  then have "snd (loadContent P t) = Inl e'" by (simp add: snd_loadContent)
  then show ?thesis by simp
qed

theorem loadContent_all_or_nothing_witness:
  "v10 \<in> set (versionsMetadata siteWithEmptyVersion) \<and>
   snd (loadVersion siteWithEmptyVersion v10 Map.empty) = Inl (TypeError ''unversionedId'') \<and>
   \<not> isl (snd (loadVersion siteWithEmptyVersion vCurrent Map.empty)) \<and>
   \<not> isl (snd (loadVersion siteWithEmptyVersion v20 Map.empty)) \<and>
   (\<exists>e'. snd (loadContent siteWithEmptyVersion Map.empty) = Inl e')"
proof -
  have m: "v10 \<in> set (versionsMetadata siteWithEmptyVersion)"
    by (simp add: siteWithEmptyVersion_def)
  have "map_sum id (\<lambda>_. ()) (snd (loadVersion siteWithEmptyVersion v10 Map.empty))
          = Inl (TypeError ''unversionedId'')"
    by code_simp
  then have f: "snd (loadVersion siteWithEmptyVersion v10 Map.empty) = Inl (TypeError ''unversionedId'')"
    by (rule map_sum_unit_Inl)
  have c: "\<not> isl (snd (loadVersion siteWithEmptyVersion vCurrent Map.empty))"
    by code_simp
  have d: "\<not> isl (snd (loadVersion siteWithEmptyVersion v20 Map.empty))"
    by code_simp
  from loadContent_all_or_nothing[OF m f, of Map.empty]
  have "\<exists>e'. snd (loadContent siteWithEmptyVersion Map.empty) = Inl e'" by simp
  with m f c d show ?thesis by (intro conjI)
qed

text \<open>
  Claim C8, as amended. When \<^verbatim>\<open>loadContent\<close> has produced a content, the global data
  that \<^verbatim>\<open>contentLoaded\<close> publishes has \<^verbatim>\<open>latestVersionName\<close> equal to the
  \<^verbatim>\<open>latestVersion\<close> of the versioning environment, whether or not a loaded version
  carries that name, and \<^verbatim>\<open>versions\<close> holds the summary of each loaded version, one per
  version of the version set and in its order. A loaded version that carries the
  published name is routed at the empty path fragment. When the version names are
  distinct at most one loaded version carries it, and when it is moreover the name of a
  version of the version set exactly one does.
\<close>

theorem contentLoaded_globalData:
  assumes "snd (loadContent P s) = Inr content"
  shows "latestVersionName (contentLoaded P content) = latestVersion P \<and>
         versions (contentLoaded P content) = map (toGlobalDataVersion P) (loadedVersions content) \<and>
         length (versions (contentLoaded P content)) = length (versionsMetadata P) \<and>
         map versionName (loadedVersions content) = map versionName (versionsMetadata P) \<and>
         (\<forall>lv\<in>set (loadedVersions content).
            Some (versionName lv) = latestVersionName (contentLoaded P content) \<longrightarrow>
            versionPath lv = normalizeUrl P [baseUrl (context' P), routeBasePath (options P), []]) \<and>
         (distinct (map versionName (versionsMetadata P)) \<longrightarrow>
            length (filter (\<lambda>lv. Some (versionName lv) = latestVersionName (contentLoaded P content))
                      (loadedVersions content)) \<le> 1) \<and>
         (latestVersion P \<in> Some ` versionName ` set (versionsMetadata P) \<and>
          distinct (map versionName (versionsMetadata P)) \<longrightarrow>
            (\<exists>!lv. lv \<in> set (loadedVersions content) \<and>
               Some (versionName lv) = latestVersionName (contentLoaded P content)))"
proof (intro conjI ballI impI)
  show a: "latestVersionName (contentLoaded P content) = latestVersion P"
    by (simp add: contentLoaded_def)
  show "versions (contentLoaded P content) = map (toGlobalDataVersion P) (loadedVersions content)"
    by (simp add: contentLoaded_def)
  show "length (versions (contentLoaded P content)) = length (versionsMetadata P)"
    using loadContent_nth(1)[OF assms] by (simp add: contentLoaded_def)
  show n: "map versionName (loadedVersions content) = map versionName (versionsMetadata P)"
    using assms by (rule loadContent_versionNames)
  {
    fix lv assume "lv \<in> set (loadedVersions content)"
      and l: "Some (versionName lv) = latestVersionName (contentLoaded P content)"
    then obtain i where i: "i < length (loadedVersions content)" "loadedVersions content ! i = lv"
      by (auto simp: in_set_conv_nth)
    then have "i < length (versionsMetadata P)" using loadContent_nth(1)[OF assms] by simp
    from loadVersion_InrD[OF loadContent_nth(2)[OF assms this]] i(2)
    have vn: "versionName lv = versionName (versionsMetadata P ! i)"
      and vp: "versionPath lv = normalizeUrl P [baseUrl (context' P), routeBasePath (options P),
                 getVersionPathPart P (versionName (versionsMetadata P ! i))]"
      by auto
    from l a vn have "getVersionPathPart P (versionName (versionsMetadata P ! i)) = []"
      by (simp add: getVersionPathPart_def)
    with vp show "versionPath lv = normalizeUrl P [baseUrl (context' P), routeBasePath (options P), []]"
      by simp
  }
  {
    assume "distinct (map versionName (versionsMetadata P))"
    with n have d: "distinct (map versionName (loadedVersions content))" by simp
    have "filter (\<lambda>lv. Some (versionName lv) = latestVersionName (contentLoaded P content))
            (loadedVersions content)
          = (case latestVersion P of None \<Rightarrow> []
             | Some k \<Rightarrow> filter (\<lambda>lv. versionName lv = k) (loadedVersions content))"
      by (simp add: a split: option.splits)
    then show "length (filter (\<lambda>lv. Some (versionName lv) = latestVersionName (contentLoaded P content))
                      (loadedVersions content)) \<le> 1"
      using distinct_filter_le_1[OF d] by (simp split: option.splits)
  }
  {
    assume h: "latestVersion P \<in> Some ` versionName ` set (versionsMetadata P) \<and>
          distinct (map versionName (versionsMetadata P))"
    then obtain k where k: "latestVersion P = Some k" "k \<in> set (map versionName (versionsMetadata P))"
      by auto
    from k(2) n have "k \<in> set (map versionName (loadedVersions content))" by simp
    then obtain lv0 where lv0: "lv0 \<in> set (loadedVersions content)" "versionName lv0 = k"
      by auto
    from h n have "distinct (map versionName (loadedVersions content))" by simp
    then have inj: "inj_on versionName (set (loadedVersions content))"
      by (simp add: distinct_map)
    show "\<exists>!lv. lv \<in> set (loadedVersions content) \<and>
               Some (versionName lv) = latestVersionName (contentLoaded P content)"
    proof (rule ex1I[of _ lv0])
      show "lv0 \<in> set (loadedVersions content) \<and>
               Some (versionName lv0) = latestVersionName (contentLoaded P content)"
        using lv0 k(1) a by simp
    next
      fix lv assume "lv \<in> set (loadedVersions content) \<and>
               Some (versionName lv) = latestVersionName (contentLoaded P content)"
      with a k(1) lv0 have "lv \<in> set (loadedVersions content)" "versionName lv = versionName lv0"
        by simp_all
      with inj lv0(1) show "lv = lv0" by (auto dest: inj_onD)
    qed
  }
qed

theorem contentLoaded_globalData_witness:
  "\<exists>content. snd (loadContent site Map.empty) = Inr content \<and>
      distinct (map versionName (versionsMetadata site)) \<and>
      latestVersionName (contentLoaded site content) = Some ''2.0'' \<and>
      length (versions (contentLoaded site content)) = 2 \<and>
      map versionName (loadedVersions content) = [''current'', ''2.0''] \<and>
      length (filter (\<lambda>lv. Some (versionName lv) = latestVersionName (contentLoaded site content))
                (loadedVersions content)) \<le> 1 \<and>
      latestVersion site \<in> Some ` versionName ` set (versionsMetadata site) \<and>
      (\<exists>!lv. lv \<in> set (loadedVersions content) \<and>
         Some (versionName lv) = latestVersionName (contentLoaded site content))"
proof -
  have "\<not> isl (snd (loadContent site Map.empty))" by code_simp
  then obtain content where c: "snd (loadContent site Map.empty) = Inr content"
    using not_isl_Inr by blast
  have d: "distinct (map versionName (versionsMetadata site))" by code_simp
  have l: "latestVersion site = Some ''2.0''" by (simp add: site_def)
  have n: "map versionName (versionsMetadata site) = [''current'', ''2.0'']" by code_simp
  have len: "length (versionsMetadata site) = 2" by (simp add: site_def)
  note g = contentLoaded_globalData[OF c]
  from g have "latestVersionName (contentLoaded site content) = latestVersion site" by blast
  with l have g1: "latestVersionName (contentLoaded site content) = Some ''2.0''" by (simp only:)
  from g have "length (versions (contentLoaded site content)) = length (versionsMetadata site)"
    by blast
  with len have g2: "length (versions (contentLoaded site content)) = 2" by (simp only:)
  from g have "map versionName (loadedVersions content) = map versionName (versionsMetadata site)"
    by blast
  with n have g3: "map versionName (loadedVersions content) = [''current'', ''2.0'']"
    by (simp only:)
  from g d have g4: "length (filter (\<lambda>lv. Some (versionName lv)
                         = latestVersionName (contentLoaded site content))
                (loadedVersions content)) \<le> 1" by blast
  have m: "latestVersion site \<in> Some ` versionName ` set (versionsMetadata site)"
    by code_simp
  from g m d have g5: "\<exists>!lv. lv \<in> set (loadedVersions content) \<and>
         Some (versionName lv) = latestVersionName (contentLoaded site content)" by blast
  from c d g1 g2 g3 g4 m g5 show ?thesis by (intro exI[of _ content] conjI)
qed

text \<open>
  Claim C8 as first stated fails on two sites. On the site without released versions the
  version \<^verbatim>\<open>current\<close> is loaded and the published \<^verbatim>\<open>latestVersionName\<close> is \<^verbatim>\<open>null\<close>.
  On the site whose versioning environment names \<^verbatim>\<open>9.9\<close> the versions \<^verbatim>\<open>current\<close> and
  \<^verbatim>\<open>2.0\<close> are loaded and the published name is \<^verbatim>\<open>9.9\<close>. In both the published name is
  the name of no loaded version.
\<close>

theorem contentLoaded_globalData_counterexample:
  "map_sum id (map versionName \<circ> loadedVersions) (snd (loadContent siteUnversioned Map.empty))
     = Inr [''current''] \<and>
   map_sum id (latestVersionName \<circ> contentLoaded siteUnversioned)
       (snd (loadContent siteUnversioned Map.empty))
     = Inr None \<and>
   map_sum id (map versionName \<circ> loadedVersions) (snd (loadContent siteGhostLatest Map.empty))
     = Inr [''current'', ''2.0''] \<and>
   map_sum id (latestVersionName \<circ> contentLoaded siteGhostLatest)
       (snd (loadContent siteGhostLatest Map.empty))
     = Inr (Some ''9.9'')"
  by (intro conjI; code_simp)

text \<open>
  Claim C9. The \<^verbatim>\<open>docs\<close> of a loaded version are the documents in the order in which
  they were read, each with its navigation data added; the list is not empty. The sort by
  id touches only the intermediate \<^verbatim>\<open>loadedDocs\<close>. In the small site the documents are
  read as \<^verbatim>\<open>b\<close>, \<^verbatim>\<open>a\<close>, \<^verbatim>\<open>c\<close> and returned in that order, which is not the order
  of their ids.
\<close>

theorem loadVersion_docs_read_order:
  assumes "loadVersionDocs P vm = Inr ds" and "snd (loadVersion P vm s) = Inr lv"
  shows "ds \<noteq> [] \<and> map DocMetadataBase.truncate (docs lv) = ds \<and>
         map id' (docs lv) = map id' ds"
proof -
  have t: "map DocMetadataBase.truncate (docs lv) = ds"
    using assms by (rule loadVersion_docs_truncate)
  have "map id' (map DocMetadataBase.truncate (docs lv)) = map id' (docs lv)"
    by (simp add: truncate_fields)
  with t have i: "map id' (docs lv) = map id' ds" by simp
  from loadVersion_InrD[OF assms(2)] assms(1) have "ds \<noteq> []" by auto
  with t i show ?thesis by simp
qed

theorem loadVersion_docs_read_order_witness:
  "\<exists>lv. loadVersionDocs site vCurrent = Inr [docB, docA, docC] \<and>
        snd (loadVersion site vCurrent Map.empty) = Inr lv \<and>
        map DocMetadataBase.truncate (docs lv) = [docB, docA, docC] \<and>
        map id' (docs lv) = [''b'', ''a'', ''c''] \<and>
        map id' (array_sort (\<lambda>a b. compareCodeUnits (id' a) (id' b)) (docs lv))
          = [''a'', ''b'', ''c'']"
proof -
  obtain lv where lv: "snd (loadVersion site vCurrent Map.empty) = Inr lv"
    using site_loads_current by blast
  from loadVersion_docs_read_order[OF site_docs_current lv]
  have t: "map DocMetadataBase.truncate (docs lv) = [docB, docA, docC]"
    and i: "map id' (docs lv) = map id' [docB, docA, docC]" by simp_all
  from i have i': "map id' (docs lv) = [''b'', ''a'', ''c'']"
    by (simp add: docA_def docB_def docC_def mkDoc_def)
  then obtain x y z where xyz: "docs lv = [x, y, z]" "id' x = ''b''" "id' y = ''a''" "id' z = ''c''"
    by (auto simp: map_eq_Cons_conv)
  have "map id' (array_sort (\<lambda>a b. compareCodeUnits (id' a) (id' b)) (docs lv))
          = [''a'', ''b'', ''c'']"
    by (simp add: xyz array_sort_def)
  with t i' lv site_docs_current show ?thesis by (intro exI[of _ lv] conjI)
qed

text \<open>
  Claim C10. When no document was read for a version, \<^verbatim>\<open>loadVersion\<close> does not return
  a loaded version: it fails. Once the sidebars and the order have been loaded, the
  failure is the \<^verbatim>\<open>TypeError\<close> of reading \<^verbatim>\<open>unversionedId\<close> of \<^verbatim>\<open>docs[0]\<close>, which is
  \<^verbatim>\<open>undefined\<close>.
\<close>

theorem loadVersion_no_documents:
  assumes "loadVersionDocs P vm = Inr []"
  shows "(\<exists>e. snd (loadVersion P vm s) = Inl e) \<and>
         (\<forall>sb ord. loadSidebars P [sidebarPath vm] = Inr sb \<and> createOrder P sb = Inr ord \<longrightarrow>
            snd (loadVersion P vm s) = Inl (TypeError ''unversionedId''))"
  using assms
  by (simp add: loadVersion_def Let_def array_map_def split: sum.splits)

theorem loadVersion_no_documents_witness:
  "loadVersionDocs site v10 = Inr [] \<and>
   loadSidebars site [sidebarPath v10] = Inr [] \<and>
   createOrder site [] = Inr Map.empty \<and>
   snd (loadVersion site v10 Map.empty) = Inl (TypeError ''unversionedId'')"
proof -
  have sb: "loadSidebars site [sidebarPath v10] = Inr []"
    by code_simp
  have ord: "createOrder site [] = Inr Map.empty"
    by (simp add: site_def)
  from loadVersion_no_documents[OF site_docs_10, of Map.empty] sb ord
  have "snd (loadVersion site v10 Map.empty) = Inl (TypeError ''unversionedId'')"
    by blast
  with site_docs_10 sb ord show ?thesis by (intro conjI)
qed

end
